theory Spec2Isabelle
  imports Main "HOL-Library.Word"
begin

section \<open>TeensyThreads: the data model\<close>

text \<open>
  A shallow embedding of \<^verbatim>\<open>src/TeensyThreads.cpp\<close>. The class declarations live in
  \<^verbatim>\<open>TeensyThreads.h\<close>, which is not part of the sources: the compile-time constants the
  code names are therefore a parameter of every function (the record \<open>params\<close>), and
  the theorems say which relations between them they rely on.

  C \<^verbatim>\<open>int\<close> values that are used as indices, counters, states or flags are HOL
  integers: the code only compares them and adds one to them. Tick counts,
  priorities, millisecond counters and addresses are 32-bit words, so that the unsigned
  arithmetic of the source wraps as it does on the target.
\<close>

type_synonym u32 = "32 word"

record params =
  MAX_THREADS :: int
  EMPTY :: int
  RUNNING :: int
  ENDED :: int
  SUSPENDED :: int
  STARTED :: int
  STOPPED :: int
  FIRST_RUN :: int
  SVC_NUMBER :: int
  SVC_NUMBER_ACTIVE :: int
  sizeof_interrupt_stack_t :: u32
  del_process_addr :: u32

text \<open>
  The hardware exception frame \<^verbatim>\<open>interrupt_stack_t\<close> with the eight fields
  \<^verbatim>\<open>loadstack\<close> assigns.
\<close>

record interrupt_stack_t =
  r0 :: u32
  r1 :: u32
  r2 :: u32
  r3 :: u32
  r12 :: u32
  lr :: u32
  pc :: u32
  xpsr :: u32

text \<open>
  \<^verbatim>\<open>ThreadInfo\<close>. Of the save area only \<^verbatim>\<open>save.lr\<close> is written by the C++ code
  (the other registers are written by the assembly trampoline).
\<close>

record ThreadInfo =
  stack_size :: int
  stack :: u32
  my_stack :: int
  save_lr :: u32
  flags :: int
  sp :: u32
  ticks :: u32
  priority :: u32

datatype heap_event = New u32 int | Delete u32

text \<open>
  The state the code reads and writes: the members of the \<^verbatim>\<open>Threads\<close> singleton, the
  \<^verbatim>\<open>extern "C"\<close> globals shared with the trampoline, the millisecond counter, one
  \<^verbatim>\<open>Threads::Mutex\<close> object (\<open>mstate\<close> is its member \<^verbatim>\<open>state\<close>), the memory that
  holds exception frames and the log of allocator calls. \<open>currentThread\<close> and
  \<open>currentSave\<close> are pointers into the thread table and are kept as the slot index
  they point into. The interrupt mask toggled by \<^verbatim>\<open>__disable_irq\<close> and
  \<^verbatim>\<open>__enable_irq\<close> is hardware state and is not part of the record.
\<close>

record world =
  thread :: "int \<Rightarrow> ThreadInfo"
  current_thread :: int
  thread_count :: int
  DEFAULT_TICKS :: u32
  DEFAULT_STACK_SIZE :: int
  currentUseSystick :: int
  currentActive :: int
  currentCount :: u32
  currentThread :: int
  currentSave :: int
  currentMSP :: int
  currentSP :: u32
  systick_millis_count :: u32
  mstate :: int
  waitthread :: int
  waitcount :: u32
  frames :: "u32 \<Rightarrow> interrupt_stack_t"
  heap_log :: "heap_event list"

text \<open>
  The table is the array \<^verbatim>\<open>thread[MAX_THREADS]\<close>. C++ does not check an index: an
  access outside \<open>0 .. MAX_THREADS - 1\<close> is undefined behaviour, which the model
  reports as the fault \<open>OutOfBounds\<close> instead of returning a value.
\<close>

datatype fault = OutOfBounds

definition in_bounds :: "params \<Rightarrow> int \<Rightarrow> bool" where
  "in_bounds c i = (0 \<le> i \<and> i < MAX_THREADS c)"

definition thread_at :: "params \<Rightarrow> world \<Rightarrow> int \<Rightarrow> fault + ThreadInfo" where
  "thread_at c s i = (if in_bounds c i then Inr (thread s i) else Inl OutOfBounds)"

definition thread_upd ::
  "params \<Rightarrow> int \<Rightarrow> (ThreadInfo \<Rightarrow> ThreadInfo) \<Rightarrow> world \<Rightarrow> fault + world" where
  "thread_upd c i f s =
     (if in_bounds c i then Inr (s\<lparr>thread := (thread s)(i := f (thread s i))\<rparr>)
      else Inl OutOfBounds)"

section \<open>Starting and stopping the scheduler\<close>

text \<open>\<^verbatim>\<open>Threads::start\<close> and \<^verbatim>\<open>Threads::stop\<close>: the old state is returned.\<close>

definition start :: "params \<Rightarrow> int \<Rightarrow> world \<Rightarrow> int \<times> world" where
  "start c prev_state s =
     (let old_state = currentActive s;
          prev_state' = (if prev_state = - 1 then STARTED c else prev_state)
      in (old_state, s\<lparr>currentActive := prev_state'\<rparr>))"

definition stop :: "params \<Rightarrow> world \<Rightarrow> int \<times> world" where
  "stop c s = (currentActive s, s\<lparr>currentActive := STOPPED c\<rparr>)"

text \<open>
  Modelled from the spec: the default argument of \<^verbatim>\<open>start()\<close> is declared in
  \<^verbatim>\<open>TeensyThreads.h\<close>, which is absent. A call without argument resumes scheduling, so
  the default is the value \<open>-1\<close> that \<^verbatim>\<open>start\<close> replaces by \<^verbatim>\<open>STARTED\<close>.
\<close>

definition start_default :: int where
  "start_default = - 1"

section \<open>Thread state and time slices\<close>

definition getState :: "params \<Rightarrow> int \<Rightarrow> world \<Rightarrow> fault + int" where
  "getState c tid s =
     (case thread_at c s tid of Inl e \<Rightarrow> Inl e | Inr t \<Rightarrow> Inr (flags t))"

definition setState :: "params \<Rightarrow> int \<Rightarrow> int \<Rightarrow> world \<Rightarrow> fault + int \<times> world" where
  "setState c tid st s =
     (case thread_upd c tid (\<lambda>t. t\<lparr>flags := st\<rparr>) s of
        Inl e \<Rightarrow> Inl e | Inr s' \<Rightarrow> Inr (st, s'))"

definition kill :: "params \<Rightarrow> int \<Rightarrow> world \<Rightarrow> fault + int \<times> world" where
  "kill c tid s =
     (case thread_upd c tid (\<lambda>t. t\<lparr>flags := ENDED c\<rparr>) s of
        Inl e \<Rightarrow> Inl e | Inr s' \<Rightarrow> Inr (tid, s'))"

definition suspend :: "params \<Rightarrow> int \<Rightarrow> world \<Rightarrow> fault + int \<times> world" where
  "suspend c tid s =
     (case thread_upd c tid (\<lambda>t. t\<lparr>flags := SUSPENDED c\<rparr>) s of
        Inl e \<Rightarrow> Inl e | Inr s' \<Rightarrow> Inr (tid, s'))"

definition restart :: "params \<Rightarrow> int \<Rightarrow> world \<Rightarrow> fault + int \<times> world" where
  "restart c tid s =
     (case thread_upd c tid (\<lambda>t. t\<lparr>flags := RUNNING c\<rparr>) s of
        Inl e \<Rightarrow> Inl e | Inr s' \<Rightarrow> Inr (tid, s'))"

text \<open>
  \<^verbatim>\<open>setTimeSlice\<close> and \<^verbatim>\<open>setDefaultTimeSlice\<close> take an \<^verbatim>\<open>unsigned int\<close>: the
  subtraction is the 32-bit one.
\<close>

definition setTimeSlice :: "params \<Rightarrow> int \<Rightarrow> u32 \<Rightarrow> world \<Rightarrow> fault + world" where
  "setTimeSlice c tid tks s = thread_upd c tid (\<lambda>t. t\<lparr>ticks := tks - 1\<rparr>) s"

definition setDefaultTimeSlice :: "u32 \<Rightarrow> world \<Rightarrow> world" where
  "setDefaultTimeSlice tks s = s\<lparr>DEFAULT_TICKS := tks - 1\<rparr>"

definition setPriority :: "params \<Rightarrow> int \<Rightarrow> u32 \<Rightarrow> world \<Rightarrow> fault + world" where
  "setPriority c tid level s =
     (let tid' = (if tid = - 1 then current_thread s else tid)
      in thread_upd c tid' (\<lambda>t. t\<lparr>priority := level\<rparr>) s)"

section \<open>Scheduler selection\<close>

text \<open>
  The priority loop of \<^verbatim>\<open>getNextThread\<close>, from index \<open>i\<close> on. It returns the local
  \<^verbatim>\<open>priority_thread\<close> (\<open>-1\<close> when the loop runs to its end) and the state. The outer
  test reads the flags of \<^verbatim>\<open>thread[current_thread]\<close>, as the source does.
\<close>

function priority_scan :: "params \<Rightarrow> int \<Rightarrow> world \<Rightarrow> fault + int \<times> world" where
  "priority_scan c i s =
     (if i < MAX_THREADS c then
        (case thread_at c s (current_thread s) of
           Inl e \<Rightarrow> Inl e
         | Inr cur \<Rightarrow>
             if flags cur = RUNNING c then
               (case thread_at c s i of
                  Inl e \<Rightarrow> Inl e
                | Inr ti \<Rightarrow>
                    if priority ti \<noteq> 0 then
                      Inr (i, s\<lparr>thread := (thread s)(i := ti\<lparr>priority := 0\<rparr>),
                                current_thread := i,
                                currentCount := ticks ti\<rparr>)
                    else priority_scan c (i + 1) s)
             else priority_scan c (i + 1) s)
      else Inr (- 1, s))"
  by pat_completeness auto
termination
  by (relation "measure (\<lambda>(c, i, s). nat (MAX_THREADS c - i))") auto

text \<open>The \<^verbatim>\<open>while(1)\<close> loop of \<^verbatim>\<open>getNextThread\<close>.\<close>

function next_running :: "params \<Rightarrow> world \<Rightarrow> fault + world" where
  "next_running c s =
     (if current_thread s + 1 \<ge> MAX_THREADS c then Inr (s\<lparr>current_thread := 0\<rparr>)
      else
        (case thread_at c (s\<lparr>current_thread := current_thread s + 1\<rparr>) (current_thread s + 1) of
           Inl e \<Rightarrow> Inl e
         | Inr t \<Rightarrow>
             if flags t = RUNNING c then Inr (s\<lparr>current_thread := current_thread s + 1\<rparr>)
             else next_running c (s\<lparr>current_thread := current_thread s + 1\<rparr>)))"
  by pat_completeness auto
termination
  by (relation "measure (\<lambda>(c, s). nat (MAX_THREADS c - current_thread s))") auto

definition getNextThread :: "params \<Rightarrow> world \<Rightarrow> fault + world" where
  "getNextThread c s =
     (case thread_upd c (current_thread s) (\<lambda>t. t\<lparr>sp := currentSP s\<rparr>) s of
        Inl e \<Rightarrow> Inl e
      | Inr s1 \<Rightarrow>
          (case priority_scan c 0 s1 of
             Inl e \<Rightarrow> Inl e
           | Inr (priority_thread, s2) \<Rightarrow>
               (case (if priority_thread = - 1 then
                        (case next_running c s2 of
                           Inl e \<Rightarrow> Inl e
                         | Inr s3 \<Rightarrow>
                             (case thread_at c s3 (current_thread s3) of
                                Inl e \<Rightarrow> Inl e
                              | Inr t \<Rightarrow> Inr (s3\<lparr>currentCount := ticks t\<rparr>)))
                      else Inr s2) of
                  Inl e \<Rightarrow> Inl e
                | Inr s4 \<Rightarrow>
                    (case thread_at c s4 (current_thread s4) of
                       Inl e \<Rightarrow> Inl e
                     | Inr t \<Rightarrow>
                         Inr (s4\<lparr>currentThread := current_thread s4,
                                 currentSave := current_thread s4,
                                 currentMSP := (if current_thread s4 = 0 then 1 else 0),
                                 currentSP := sp t\<rparr>)))))"

section \<open>Supervisor calls\<close>

text \<open>
  The assembly routines \<^verbatim>\<open>context_switch_direct\<close> and
  \<^verbatim>\<open>context_switch_direct_active\<close> are not C++ and not in the sources: they are
  parameters. Each stands for the switch away from the caller and everything that
  happens until the caller runs again; a switch after which the caller never runs
  again is not represented. \<^verbatim>\<open>svcall_isr\<close> reads the immediate of the
  \<^verbatim>\<open>svc\<close> instruction that trapped; here it is an argument.
\<close>

record asm =
  context_switch_direct :: "world \<Rightarrow> world"
  context_switch_direct_active :: "world \<Rightarrow> world"

definition svcall_isr :: "params \<Rightarrow> asm \<Rightarrow> int \<Rightarrow> world \<Rightarrow> world" where
  "svcall_isr c a svc s =
     (if svc = SVC_NUMBER c then context_switch_direct a s
      else if svc = SVC_NUMBER_ACTIVE c then
        context_switch_direct_active a (s\<lparr>currentActive := STARTED c\<rparr>)
      else s)"

definition yield :: "params \<Rightarrow> asm \<Rightarrow> world \<Rightarrow> world" where
  "yield c a s = svcall_isr c a (SVC_NUMBER c) s"

definition yield_and_start :: "params \<Rightarrow> asm \<Rightarrow> world \<Rightarrow> world" where
  "yield_and_start c a s = svcall_isr c a (SVC_NUMBER_ACTIVE c) s"



section \<open>Creating threads\<close>

definition frame_upd ::
  "u32 \<Rightarrow> (interrupt_stack_t \<Rightarrow> interrupt_stack_t) \<Rightarrow> world \<Rightarrow> world" where
  "frame_upd a f s = s\<lparr>frames := (frames s)(a := f (frames s a))\<rparr>"

text \<open>
  \<^verbatim>\<open>loadstack\<close>: the eight stores through \<^verbatim>\<open>process_frame\<close>, in the order of the
  source, and the returned pointer. Address arithmetic is modulo \<open>2^32\<close>.
\<close>

definition loadstack :: "params \<Rightarrow> u32 \<Rightarrow> u32 \<Rightarrow> u32 \<Rightarrow> int \<Rightarrow> world \<Rightarrow> u32 \<times> world" where
  "loadstack c p arg stackaddr stk_size s =
     (let process_frame = stackaddr + word_of_int stk_size - sizeof_interrupt_stack_t c - 8;
          s1 = frame_upd process_frame (\<lambda>f. f\<lparr>r0 := arg\<rparr>) s;
          s2 = frame_upd process_frame (\<lambda>f. f\<lparr>r1 := 0\<rparr>) s1;
          s3 = frame_upd process_frame (\<lambda>f. f\<lparr>r2 := 0\<rparr>) s2;
          s4 = frame_upd process_frame (\<lambda>f. f\<lparr>r3 := 0\<rparr>) s3;
          s5 = frame_upd process_frame (\<lambda>f. f\<lparr>r12 := 0\<rparr>) s4;
          s6 = frame_upd process_frame (\<lambda>f. f\<lparr>lr := del_process_addr c\<rparr>) s5;
          s7 = frame_upd process_frame (\<lambda>f. f\<lparr>pc := p\<rparr>) s6;
          s8 = frame_upd process_frame (\<lambda>f. f\<lparr>xpsr := 0x1000000\<rparr>) s7
      in (process_frame, s8))"

text \<open>
  The body of the loop of \<^verbatim>\<open>addThread\<close> for a free slot \<open>i\<close>. \<open>newp\<close> is the address
  \<^verbatim>\<open>new uint8_t[stack_size]\<close> returns when it is called.
\<close>

definition addThread_slot ::
  "params \<Rightarrow> u32 \<Rightarrow> u32 \<Rightarrow> u32 \<Rightarrow> int \<Rightarrow> u32 \<Rightarrow> int \<Rightarrow> int \<Rightarrow> world \<Rightarrow> int \<times> world" where
  "addThread_slot c newp p arg stk_size stk old_state i s =
     (let ti = thread s i;
          s1 = (if stack ti \<noteq> 0 \<and> my_stack ti \<noteq> 0
                then s\<lparr>heap_log := heap_log s @ [Delete (stack ti)]\<rparr> else s);
          stk' = (if stk = 0 then newp else stk);
          s2 = (if stk = 0 then s1\<lparr>heap_log := heap_log s1 @ [New newp stk_size]\<rparr> else s1);
          s3 = s2\<lparr>thread := (thread s2)(i := (thread s2 i)
                 \<lparr>stack_size := stk_size, stack := stk',
                  my_stack := (if stk = 0 then 1 else 0)\<rparr>)\<rparr>;
          (psp, s4) = loadstack c p arg (stack (thread s3 i)) (stack_size (thread s3 i)) s3;
          s5 = s4\<lparr>thread := (thread s4)(i := (thread s4 i)
                 \<lparr>save_lr := 0xFFFFFFF9, flags := RUNNING c, sp := psp,
                  ticks := DEFAULT_TICKS s4, priority := 0\<rparr>)\<rparr>;
          s6 = s5\<lparr>currentActive := old_state\<rparr>;
          s7 = s6\<lparr>thread_count := thread_count s6 + 1\<rparr>;
          s8 = (if old_state = STARTED c \<or> old_state = FIRST_RUN c
                then snd (start c start_default s7) else s7)
      in (i, s8))"

text \<open>
  The \<^verbatim>\<open>for\<close> loop of \<^verbatim>\<open>addThread\<close> from index \<open>i\<close> on, together with the two
  statements that follow it.
\<close>

function addThread_loop ::
  "params \<Rightarrow> u32 \<Rightarrow> u32 \<Rightarrow> u32 \<Rightarrow> int \<Rightarrow> u32 \<Rightarrow> int \<Rightarrow> int \<Rightarrow> world \<Rightarrow> fault + int \<times> world" where
  "addThread_loop c newp p arg stk_size stk old_state i s =
     (if i < MAX_THREADS c then
        (case thread_at c s i of
           Inl e \<Rightarrow> Inl e
         | Inr ti \<Rightarrow>
             if flags ti = ENDED c \<or> flags ti = EMPTY c then
               Inr (addThread_slot c newp p arg stk_size stk old_state i s)
             else addThread_loop c newp p arg stk_size stk old_state (i + 1) s)
      else Inr (- 1, if old_state = STARTED c then snd (start c start_default s) else s))"
  by pat_completeness auto
termination
  by (relation "measure (\<lambda>(c, newp, p, arg, stk_size, stk, old_state, i, s).
        nat (MAX_THREADS c - i))") auto

definition addThread ::
  "params \<Rightarrow> u32 \<Rightarrow> u32 \<Rightarrow> u32 \<Rightarrow> int \<Rightarrow> u32 \<Rightarrow> world \<Rightarrow> fault + int \<times> world" where
  "addThread c newp p arg stk_size stk s =
     (case stop c s of
        (old_state, s1) \<Rightarrow>
          addThread_loop c newp p arg
            (if stk_size = - 1 then DEFAULT_STACK_SIZE s1 else stk_size) stk old_state 1 s1)"

section \<open>Waiting for a thread\<close>

text \<open>
  Modelled from the spec: \<^verbatim>\<open>millis()\<close> belongs to the Arduino core, not to this
  repository; it reads the millisecond counter that the system tick advances.
\<close>

definition millis :: "world \<Rightarrow> u32" where
  "millis s = systick_millis_count s"

text \<open>
  The loop of \<^verbatim>\<open>Threads::wait\<close>. It may run forever, so it takes fuel: \<open>None\<close> means
  that the call has not returned after that many iterations. The \<open>k\<close>-th call of
  \<^verbatim>\<open>yield\<close> switches away through the routines \<open>a k\<close>, so that what the other
  threads and the clock do may differ from one yield to the next.
\<close>

fun wait_loop ::
  "params \<Rightarrow> (nat \<Rightarrow> asm) \<Rightarrow> nat \<Rightarrow> nat \<Rightarrow> int \<Rightarrow> u32 \<Rightarrow> u32 \<Rightarrow> world
     \<Rightarrow> (fault + int \<times> world) option" where
  "wait_loop c a 0 k tid timeout_ms strt s = None"
| "wait_loop c a (Suc fuel) k tid timeout_ms strt s =
     (if timeout_ms \<noteq> 0 \<and> millis s - strt > timeout_ms then Some (Inr (- 1, s))
      else
        (case thread_at c s tid of
           Inl e \<Rightarrow> Some (Inl e)
         | Inr t \<Rightarrow>
             if flags t \<noteq> RUNNING c then Some (Inr (tid, s))
             else wait_loop c a fuel (Suc k) tid timeout_ms strt (yield c (a k) s)))"

definition wait ::
  "params \<Rightarrow> (nat \<Rightarrow> asm) \<Rightarrow> nat \<Rightarrow> int \<Rightarrow> u32 \<Rightarrow> world \<Rightarrow> (fault + int \<times> world) option" where
  "wait c a fuel tid timeout_ms s = wait_loop c a fuel 0 tid timeout_ms (millis s) s"

section \<open>The mutex\<close>





definition unlock :: "params \<Rightarrow> asm \<Rightarrow> world \<Rightarrow> fault + int \<times> world" where
  "unlock c a s =
     (case stop c s of
        (p, s1) \<Rightarrow>
          if mstate s1 = 1 then
            (let s2 = s1\<lparr>mstate := 0\<rparr>
             in if waitthread s2 \<ge> 0 then
                  (case setPriority c (waitthread s2) (waitcount s2) s2 of
                     Inl e \<Rightarrow> Inl e
                   | Inr s3 \<Rightarrow>
                       (case restart c (waitthread s3) s3 of
                          Inl e \<Rightarrow> Inl e
                        | Inr (r, s4) \<Rightarrow>
                            Inr (1, yield_and_start c a (s4\<lparr>waitthread := - 1\<rparr>))))
                else Inr (1, snd (start c p s2)))
          else Inr (1, snd (start c p s1)))"

section \<open>A concrete configuration\<close>

text \<open>
  The closed examples below run the definitions on this configuration: a table of four
  slots, four distinct thread states and three distinct scheduler states, none of them
  \<open>-1\<close>.
\<close>

definition cfg :: params where
  "cfg = \<lparr>MAX_THREADS = 4, EMPTY = 0, RUNNING = 1, ENDED = 2, SUSPENDED = 3,
          STARTED = 1, STOPPED = 2, FIRST_RUN = 3,
          SVC_NUMBER = 33, SVC_NUMBER_ACTIVE = 34,
          sizeof_interrupt_stack_t = 32, del_process_addr = 0x4001\<rparr>"

definition blank :: ThreadInfo where
  "blank = \<lparr>stack_size = 0, stack = 0, my_stack = 0, save_lr = 0, flags = 0,
            sp = 0, ticks = 0, priority = 0\<rparr>"

definition zero_frame :: interrupt_stack_t where
  "zero_frame = \<lparr>r0 = 0, r1 = 0, r2 = 0, r3 = 0, r12 = 0, lr = 0, pc = 0, xpsr = 0\<rparr>"

text \<open>
  The state the constructor of \<^verbatim>\<open>Threads\<close> leaves, for \<^verbatim>\<open>DEFAULT_TICKS = 10\<close> and
  \<^verbatim>\<open>DEFAULT_STACK_SIZE = 1024\<close>: slot 0 is RUNNING with the default slice and the
  scheduler is in FIRST_RUN. The other slots are EMPTY and have neither a stack nor a
  priority; the mutex is free and has no waiter.
\<close>

definition boot :: world where
  "boot = \<lparr>thread = (\<lambda>i. blank)(0 := blank\<lparr>flags := 1, ticks := 10\<rparr>),
           current_thread = 0, thread_count = 0,
           DEFAULT_TICKS = 10, DEFAULT_STACK_SIZE = 1024,
           currentUseSystick = 1, currentActive = 3, currentCount = 10,
           currentThread = 0, currentSave = 0, currentMSP = 1, currentSP = 0,
           systick_millis_count = 0,
           mstate = 0, waitthread = - 1, waitcount = 0,
           frames = (\<lambda>a. zero_frame), heap_log = []\<rparr>"

text \<open>
  Switch routines that hand control straight back: nothing else runs and the clock
  stands still.
\<close>

definition idle :: asm where
  "idle = \<lparr>context_switch_direct = (\<lambda>s. s), context_switch_direct_active = (\<lambda>s. s)\<rparr>"

text \<open>
  Slot 1 runs the thread that holds the mutex; slot 2 is parked on it with seven ticks
  left; the scheduler is started.
\<close>

definition held_parked :: world where
  "held_parked = boot\<lparr>thread := (thread boot)
       (1 := blank\<lparr>flags := 1, ticks := 10\<rparr>, 2 := blank\<lparr>flags := 3, ticks := 10\<rparr>),
     current_thread := 1, thread_count := 2, currentActive := 1,
     mstate := 1, waitthread := 2, waitcount := 7\<rparr>"

text \<open>The mutex is held and nobody waits for it.\<close>

definition held_alone :: world where
  "held_alone = boot\<lparr>thread := (thread boot)(1 := blank\<lparr>flags := 1, ticks := 10\<rparr>),
     current_thread := 1, thread_count := 1, currentActive := 1, mstate := 1\<rparr>"

text \<open>The mutex is free, yet slot 2 is still recorded as its waiter.\<close>

definition free_parked :: world where
  "free_parked = held_parked\<lparr>mstate := 0\<rparr>"

text \<open>
  Three threads: slots 0 and 2 are RUNNING, slot 1 is SUSPENDED, slot 3 is EMPTY; slot
  0 is executing and no priority is set. Slot 2 has a slice of 20 ticks.
\<close>

definition three_threads :: world where
  "three_threads = boot\<lparr>thread := (thread boot)
       (1 := blank\<lparr>flags := 3, ticks := 10\<rparr>,
        2 := blank\<lparr>flags := 1, ticks := 20, sp := 0x2FD8\<rparr>),
     thread_count := 2, currentActive := 1, currentSP := 0x1FF0\<rparr>"

text \<open>
  Slot 3 is RUNNING as well, and slot 1, suspended, is the one that was executing.
\<close>

definition suspended_current :: world where
  "suspended_current = three_threads\<lparr>thread := (thread three_threads)
       (3 := blank\<lparr>flags := 1, ticks := 10\<rparr>),
     current_thread := 1, thread_count := 3\<rparr>"

text \<open>
  Every slot of the table is RUNNING, so none is free; the scheduler is started. The
  second state is the same table while the scheduler is still in FIRST_RUN.
\<close>

definition full_table :: world where
  "full_table = boot\<lparr>thread := (\<lambda>i. blank\<lparr>flags := 1, ticks := 10\<rparr>),
     thread_count := 3, currentActive := 1\<rparr>"

definition full_first_run :: world where
  "full_first_run = full_table\<lparr>currentActive := 3\<rparr>"

text \<open>
  Two families of switch routines. With \<open>ticking\<close> every switch away from the caller
  lasts 4 ms and changes nothing else. With \<open>late\<close> thread 2 is killed 2 ms into the
  switch and the caller runs again 11 ms after it yielded.
\<close>

definition ticking :: "nat \<Rightarrow> asm" where
  "ticking k =
     \<lparr>context_switch_direct = (\<lambda>s. s\<lparr>systick_millis_count := systick_millis_count s + 4\<rparr>),
      context_switch_direct_active = (\<lambda>s. s)\<rparr>"

definition late :: "nat \<Rightarrow> asm" where
  "late k =
     \<lparr>context_switch_direct =
        (\<lambda>s. case kill cfg 2 (s\<lparr>systick_millis_count := systick_millis_count s + 2\<rparr>) of
                Inl e \<Rightarrow> s
              | Inr (r, s') \<Rightarrow> s'\<lparr>systick_millis_count := systick_millis_count s' + 9\<rparr>),
      context_switch_direct_active = (\<lambda>s. s)\<rparr>"






section \<open>Specification predicates\<close>

text \<open>
  \<open>rr_pick c th cur j\<close>: slot \<open>j\<close> is the first slot after \<open>cur\<close> whose flags are
  RUNNING, or it is slot 0 because no slot after \<open>cur\<close> is RUNNING.
\<close>

definition rr_pick :: "params \<Rightarrow> (int \<Rightarrow> ThreadInfo) \<Rightarrow> int \<Rightarrow> int \<Rightarrow> bool" where
  "rr_pick c th cur j =
     ((cur < j \<and> j < MAX_THREADS c \<and> flags (th j) = RUNNING c
         \<and> (\<forall>k. cur < k \<and> k < j \<longrightarrow> flags (th k) \<noteq> RUNNING c))
      \<or> (j = 0 \<and> (\<forall>k. cur < k \<and> k < MAX_THREADS c \<longrightarrow> flags (th k) \<noteq> RUNNING c)))"

text \<open>
  \<open>yields c a k n s\<close> is the state after \<open>n\<close> calls of \<^verbatim>\<open>yield\<close>, the first of them
  through the routines \<open>a k\<close>: the state in which \<^verbatim>\<open>wait\<close> makes its \<open>n\<close>-th check.
\<close>

fun yields :: "params \<Rightarrow> (nat \<Rightarrow> asm) \<Rightarrow> nat \<Rightarrow> nat \<Rightarrow> world \<Rightarrow> world" where
  "yields c a k 0 s = s"
| "yields c a k (Suc n) s = yields c a (Suc k) n (yield c (a k) s)"

text \<open>
  One check of \<^verbatim>\<open>wait\<close> in state \<open>s\<close>: the deadline has expired; the loop goes on
  (deadline not expired, target RUNNING); the call returns \<open>r\<close>.
\<close>

definition wait_expired :: "u32 \<Rightarrow> u32 \<Rightarrow> world \<Rightarrow> bool" where
  "wait_expired timeout_ms strt s = (timeout_ms \<noteq> 0 \<and> timeout_ms < millis s - strt)"

definition wait_goes_on :: "params \<Rightarrow> int \<Rightarrow> u32 \<Rightarrow> u32 \<Rightarrow> world \<Rightarrow> bool" where
  "wait_goes_on c tid timeout_ms strt s =
     (\<not> wait_expired timeout_ms strt s \<and> in_bounds c tid \<and> flags (thread s tid) = RUNNING c)"

definition wait_exit :: "params \<Rightarrow> int \<Rightarrow> u32 \<Rightarrow> u32 \<Rightarrow> int \<Rightarrow> world \<Rightarrow> bool" where
  "wait_exit c tid timeout_ms strt r s =
     (if wait_expired timeout_ms strt s then r = - 1
      else in_bounds c tid \<and> flags (thread s tid) \<noteq> RUNNING c \<and> r = tid)"








section \<open>The loops of the scheduler\<close>

declare priority_scan.simps [simp del] next_running.simps [simp del]
  addThread_loop.simps [simp del]

lemmas run_defs = getNextThread_def thread_upd_def thread_at_def in_bounds_def
  priority_scan.simps next_running.simps setPriority_def

lemmas ex_defs = three_threads_def boot_def cfg_def blank_def

lemma rr_pick_step:
  assumes nr: "flags (th (cur + 1)) \<noteq> RUNNING c" and p: "rr_pick c th (cur + 1) j"
  shows "rr_pick c th cur j"
proof -
  have split: "k = cur + 1 \<or> cur + 1 < k" if "cur < k" for k :: int
    using that by linarith
  from p consider
      (found) "cur + 1 < j" "j < MAX_THREADS c" "flags (th j) = RUNNING c"
        "\<forall>k. cur + 1 < k \<and> k < j \<longrightarrow> flags (th k) \<noteq> RUNNING c"
    | (wrapped) "j = 0" "\<forall>k. cur + 1 < k \<and> k < MAX_THREADS c \<longrightarrow> flags (th k) \<noteq> RUNNING c"
    unfolding rr_pick_def by blast
  then show ?thesis
  proof cases
    case found
    have "\<forall>k. cur < k \<and> k < j \<longrightarrow> flags (th k) \<noteq> RUNNING c"
      using split nr found(4) by blast
    with found show ?thesis unfolding rr_pick_def by simp
  next
    case wrapped
    have "\<forall>k. cur < k \<and> k < MAX_THREADS c \<longrightarrow> flags (th k) \<noteq> RUNNING c"
      using split nr wrapped(2) by blast
    with wrapped show ?thesis unfolding rr_pick_def by simp
  qed
qed

lemma next_running_pick:
  "- 1 \<le> current_thread s \<Longrightarrow>
   \<exists>j. next_running c s = Inr (s\<lparr>current_thread := j\<rparr>) \<and> rr_pick c (thread s) (current_thread s) j"
proof (induction c s rule: next_running.induct)
  case (1 c s)
  let ?n = "current_thread s + 1"
  show ?case
  proof (cases "MAX_THREADS c \<le> ?n")
    case True
    then have "next_running c s = Inr (s\<lparr>current_thread := 0\<rparr>)"
      by (subst next_running.simps) simp
    moreover from True have "rr_pick c (thread s) (current_thread s) 0"
      by (auto simp: rr_pick_def)
    ultimately show ?thesis by blast
  next
    case False
    with "1.prems" have ib: "in_bounds c ?n"
      by (simp add: in_bounds_def)
    show ?thesis
    proof (cases "flags (thread s ?n) = RUNNING c")
      case True
      with False ib have "next_running c s = Inr (s\<lparr>current_thread := ?n\<rparr>)"
        by (subst next_running.simps) (simp add: thread_at_def)
      moreover from True False have "rr_pick c (thread s) (current_thread s) ?n"
        by (auto simp: rr_pick_def)
      ultimately show ?thesis by blast
    next
      case nr: False
      from False ib nr have eq: "next_running c s = next_running c (s\<lparr>current_thread := ?n\<rparr>)"
        by (subst next_running.simps) (simp add: thread_at_def)
      have "\<exists>j. next_running c (s\<lparr>current_thread := ?n\<rparr>) = Inr (s\<lparr>current_thread := ?n\<rparr>\<lparr>current_thread := j\<rparr>)
              \<and> rr_pick c (thread (s\<lparr>current_thread := ?n\<rparr>)) (current_thread (s\<lparr>current_thread := ?n\<rparr>)) j"
        using False ib nr "1.prems"
        by (intro "1.IH") (simp_all add: thread_at_def)
      then obtain j where j: "next_running c (s\<lparr>current_thread := ?n\<rparr>) = Inr (s\<lparr>current_thread := j\<rparr>)"
        and p: "rr_pick c (thread s) ?n j"
        by auto
      from rr_pick_step[OF nr p] j eq show ?thesis by auto
    qed
  qed
qed

lemma priority_scan_none:
  assumes "in_bounds c (current_thread s)" and "0 \<le> i"
    and "flags (thread s (current_thread s)) \<noteq> RUNNING c
         \<or> (\<forall>j. i \<le> j \<and> j < MAX_THREADS c \<longrightarrow> priority (thread s j) = 0)"
  shows "priority_scan c i s = Inr (- 1, s)"
  using assms
proof (induction c i s rule: priority_scan.induct)
  case (1 c i s)
  show ?case
  proof (cases "i < MAX_THREADS c")
    case False
    then show ?thesis by (subst priority_scan.simps) simp
  next
    case True
    with "1.prems" have ib: "in_bounds c i" by (simp add: in_bounds_def)
    show ?thesis
    proof (cases "flags (thread s (current_thread s)) = RUNNING c")
      case False
      with True "1.prems" have "priority_scan c i s = priority_scan c (i + 1) s"
        by (subst priority_scan.simps) (simp add: thread_at_def)
      moreover have "priority_scan c (i + 1) s = Inr (- 1, s)"
        using True False "1.prems" by (intro "1.IH"(2)) (simp_all add: thread_at_def)
      ultimately show ?thesis by simp
    next
      case run: True
      with "1.prems" True have z: "priority (thread s i) = 0" by auto
      with True run ib "1.prems" have "priority_scan c i s = priority_scan c (i + 1) s"
        by (subst priority_scan.simps) (simp add: thread_at_def)
      moreover have "priority_scan c (i + 1) s = Inr (- 1, s)"
      proof (rule "1.IH"(1)[OF True _ run _ _ "1.prems"(1)])
        show "thread_at c s (current_thread s) = Inr (thread s (current_thread s))"
          using "1.prems" by (simp add: thread_at_def)
        show "thread_at c s i = Inr (thread s i)"
          using ib by (simp add: thread_at_def)
        show "\<not> priority (thread s i) \<noteq> 0" using z by simp
        show "0 \<le> i + 1" using "1.prems" by simp
        show "flags (thread s (current_thread s)) \<noteq> RUNNING c
           \<or> (\<forall>j. i + 1 \<le> j \<and> j < MAX_THREADS c \<longrightarrow> priority (thread s j) = 0)"
          using "1.prems" by auto
      qed
      ultimately show ?thesis by simp
    qed
  qed
qed

lemma priority_scan_first:
  assumes "in_bounds c (current_thread s)" and "flags (thread s (current_thread s)) = RUNNING c"
    and "0 \<le> i" and "i \<le> tid" and "tid < MAX_THREADS c"
    and "priority (thread s tid) \<noteq> 0"
    and "\<forall>j. i \<le> j \<and> j < tid \<longrightarrow> priority (thread s j) = 0"
  shows "priority_scan c i s =
           Inr (tid, s\<lparr>thread := (thread s)(tid := (thread s tid)\<lparr>priority := 0\<rparr>),
                       current_thread := tid, currentCount := ticks (thread s tid)\<rparr>)"
  using assms
proof (induction c i s rule: priority_scan.induct)
  case (1 c i s)
  from "1.prems" have lt: "i < MAX_THREADS c" and ib: "in_bounds c i"
    by (simp_all add: in_bounds_def)
  show ?case
  proof (cases "i = tid")
    case True
    with "1.prems" lt ib show ?thesis
      by (subst priority_scan.simps) (simp add: thread_at_def)
  next
    case False
    with "1.prems" have z: "priority (thread s i) = 0" and lt': "i + 1 \<le> tid" by auto
    with "1.prems" lt ib have "priority_scan c i s = priority_scan c (i + 1) s"
      by (subst priority_scan.simps) (simp add: thread_at_def)
    also have "priority_scan c (i + 1) s =
           Inr (tid, s\<lparr>thread := (thread s)(tid := (thread s tid)\<lparr>priority := 0\<rparr>),
                       current_thread := tid, currentCount := ticks (thread s tid)\<rparr>)"
    proof (rule "1.IH"(1)[OF lt _ "1.prems"(2) _ _ "1.prems"(1) "1.prems"(2)])
      show "thread_at c s (current_thread s) = Inr (thread s (current_thread s))"
        using "1.prems" by (simp add: thread_at_def)
      show "thread_at c s i = Inr (thread s i)"
        using ib by (simp add: thread_at_def)
      show "\<not> priority (thread s i) \<noteq> 0" using z by simp
      show "0 \<le> i + 1" using "1.prems" by simp
      show "i + 1 \<le> tid" by (rule lt')
      show "tid < MAX_THREADS c" by (rule "1.prems"(5))
      show "priority (thread s tid) \<noteq> 0" by (rule "1.prems"(6))
      show "\<forall>j. i + 1 \<le> j \<and> j < tid \<longrightarrow> priority (thread s j) = 0"
        using "1.prems"(7) by auto
    qed
    finally show ?thesis .
  qed
qed

lemma rr_pick_in_bounds:
  "in_bounds c cur \<Longrightarrow> rr_pick c th cur j \<Longrightarrow> in_bounds c j"
  by (auto simp: rr_pick_def in_bounds_def)

lemma rr_pick_cong:
  "(\<And>k. flags (th' k) = flags (th k)) \<Longrightarrow> rr_pick c th' cur j = rr_pick c th cur j"
  by (simp add: rr_pick_def)

lemma getNextThread_round_robin:
  assumes ib: "in_bounds c (current_thread s)"
    and np: "flags (thread s (current_thread s)) \<noteq> RUNNING c
             \<or> (\<forall>i. 0 \<le> i \<and> i < MAX_THREADS c \<longrightarrow> priority (thread s i) = 0)"
  shows "\<exists>j. rr_pick c (thread s) (current_thread s) j \<and> in_bounds c j \<and>
           getNextThread c s =
             Inr (s\<lparr>thread := (thread s)(current_thread s :=
                      (thread s (current_thread s))\<lparr>sp := currentSP s\<rparr>),
                    current_thread := j,
                    currentCount := ticks (thread s j),
                    currentThread := j, currentSave := j,
                    currentMSP := (if j = 0 then 1 else 0),
                    currentSP := (if j = current_thread s then currentSP s else sp (thread s j))\<rparr>)"
proof -
  let ?cur = "current_thread s"
  let ?s1 = "s\<lparr>thread := (thread s)(?cur := (thread s ?cur)\<lparr>sp := currentSP s\<rparr>)\<rparr>"
  have u: "thread_upd c ?cur (\<lambda>t. t\<lparr>sp := currentSP s\<rparr>) s = Inr ?s1"
    using ib by (simp add: thread_upd_def)
  have ps: "priority_scan c 0 ?s1 = Inr (- 1, ?s1)"
    using ib np by (intro priority_scan_none) auto
  from ib have "- 1 \<le> current_thread ?s1" by (simp add: in_bounds_def)
  from next_running_pick [OF this, of c]
  obtain j where nr: "next_running c ?s1 = Inr (?s1\<lparr>current_thread := j\<rparr>)"
    and pk: "rr_pick c (thread ?s1) ?cur j"
    by auto
  have "rr_pick c (thread ?s1) ?cur j = rr_pick c (thread s) ?cur j"
    by (rule rr_pick_cong) simp
  with pk have pk': "rr_pick c (thread s) ?cur j" by simp
  have jb: "in_bounds c j" by (rule rr_pick_in_bounds [OF ib pk'])
  have "getNextThread c s =
             Inr (s\<lparr>thread := (thread s)(current_thread s :=
                      (thread s (current_thread s))\<lparr>sp := currentSP s\<rparr>),
                    current_thread := j,
                    currentCount := ticks (thread s j),
                    currentThread := j, currentSave := j,
                    currentMSP := (if j = 0 then 1 else 0),
                    currentSP := (if j = current_thread s then currentSP s else sp (thread s j))\<rparr>)"
    using jb by (simp add: getNextThread_def u ps nr thread_at_def)
  with pk' jb show ?thesis by blast
qed

lemma getNextThread_priority:
  assumes ib: "in_bounds c (current_thread s)"
    and run: "flags (thread s (current_thread s)) = RUNNING c"
    and tb: "in_bounds c tid"
    and pr: "priority (thread s tid) \<noteq> 0"
    and fst: "\<forall>j. 0 \<le> j \<and> j < tid \<longrightarrow> priority (thread s j) = 0"
  shows "getNextThread c s =
           Inr (s\<lparr>thread := (thread s)
                    (current_thread s := (thread s (current_thread s))\<lparr>sp := currentSP s\<rparr>,
                     tid := (if tid = current_thread s
                             then (thread s tid)\<lparr>sp := currentSP s\<rparr> else thread s tid)
                            \<lparr>priority := 0\<rparr>),
                  current_thread := tid,
                  currentCount := ticks (thread s tid),
                  currentThread := tid, currentSave := tid,
                  currentMSP := (if tid = 0 then 1 else 0),
                  currentSP := (if tid = current_thread s then currentSP s else sp (thread s tid))\<rparr>)"
proof -
  let ?cur = "current_thread s"
  let ?s1 = "s\<lparr>thread := (thread s)(?cur := (thread s ?cur)\<lparr>sp := currentSP s\<rparr>)\<rparr>"
  have u: "thread_upd c ?cur (\<lambda>t. t\<lparr>sp := currentSP s\<rparr>) s = Inr ?s1"
    using ib by (simp add: thread_upd_def)
  have ps: "priority_scan c 0 ?s1 =
      Inr (tid, ?s1\<lparr>thread := (thread ?s1)(tid := (thread ?s1 tid)\<lparr>priority := 0\<rparr>),
                     current_thread := tid, currentCount := ticks (thread ?s1 tid)\<rparr>)"
    using ib run tb pr fst by (intro priority_scan_first) (auto simp: in_bounds_def)
  from tb have ne: "tid \<noteq> - 1" by (auto simp: in_bounds_def)
  show ?thesis
    using tb ne by (simp add: getNextThread_def u ps thread_at_def)
qed

lemma setPriority_in_bounds:
  "in_bounds c tid \<Longrightarrow>
   setPriority c tid k s = Inr (s\<lparr>thread := (thread s)(tid := (thread s tid)\<lparr>priority := k\<rparr>)\<rparr>)"
  by (auto simp: setPriority_def thread_upd_def in_bounds_def)

section \<open>Thread ids and the table bounds\<close>

text \<open>
  Claim C9. \<^verbatim>\<open>getState\<close>, \<^verbatim>\<open>setState\<close>, \<^verbatim>\<open>kill\<close>, \<^verbatim>\<open>suspend\<close> and
  \<^verbatim>\<open>restart\<close> index the table with the id they are given and test nothing: each of
  them is defined (its access is inside the array) exactly when
  \<open>0 \<le> id < MAX_THREADS\<close>, and for every other id the access is out of bounds.
\<close>

theorem id_ops_defined_iff_in_bounds:
  "((\<exists>r. getState c tid s = Inr r) = (0 \<le> tid \<and> tid < MAX_THREADS c))
   \<and> ((\<exists>r. setState c tid st s = Inr r) = (0 \<le> tid \<and> tid < MAX_THREADS c))
   \<and> ((\<exists>r. kill c tid s = Inr r) = (0 \<le> tid \<and> tid < MAX_THREADS c))
   \<and> ((\<exists>r. suspend c tid s = Inr r) = (0 \<le> tid \<and> tid < MAX_THREADS c))
   \<and> ((\<exists>r. restart c tid s = Inr r) = (0 \<le> tid \<and> tid < MAX_THREADS c))
   \<and> ((getState c tid s = Inl OutOfBounds) = (tid < 0 \<or> MAX_THREADS c \<le> tid))
   \<and> ((setState c tid st s = Inl OutOfBounds) = (tid < 0 \<or> MAX_THREADS c \<le> tid))
   \<and> ((kill c tid s = Inl OutOfBounds) = (tid < 0 \<or> MAX_THREADS c \<le> tid))
   \<and> ((suspend c tid s = Inl OutOfBounds) = (tid < 0 \<or> MAX_THREADS c \<le> tid))
   \<and> ((restart c tid s = Inl OutOfBounds) = (tid < 0 \<or> MAX_THREADS c \<le> tid))"
  by (auto simp: getState_def setState_def kill_def suspend_def restart_def
        thread_at_def thread_upd_def in_bounds_def)

section \<open>The bootstrap frame\<close>

text \<open>
  Claim C6. \<^verbatim>\<open>loadstack(entry, arg, base, size)\<close> writes one frame, at
  \<open>base + size - sizeof(frame) - 8\<close>, with \<open>r0 = arg\<close>, \<open>r1 = r2 = r3 = r12 = 0\<close>,
  \<open>lr\<close> the address of \<^verbatim>\<open>del_process\<close>, \<open>pc = entry\<close> and \<open>xpsr = 0x1000000\<close>; it
  returns the address of that frame and changes nothing else.
\<close>

theorem loadstack_frame:
  "loadstack c p arg base sz s =
     (base + word_of_int sz - sizeof_interrupt_stack_t c - 8,
      s\<lparr>frames := (frames s)
          (base + word_of_int sz - sizeof_interrupt_stack_t c - 8 :=
             \<lparr>r0 = arg, r1 = 0, r2 = 0, r3 = 0, r12 = 0,
              lr = del_process_addr c, pc = p, xpsr = 0x1000000\<rparr>)\<rparr>)"
  by (simp add: loadstack_def frame_upd_def Let_def fun_eq_iff)

section \<open>Unlocking the mutex\<close>

lemma unlock_not_locked:
  "mstate s \<noteq> 1 \<Longrightarrow>
   unlock c a s =
     Inr (1, s\<lparr>currentActive := (if currentActive s = - 1 then STARTED c else currentActive s)\<rparr>)"
  by (simp add: unlock_def stop_def start_def Let_def)

lemma unlock_no_waiter:
  "mstate s = 1 \<Longrightarrow> waitthread s < 0 \<Longrightarrow>
   unlock c a s =
     Inr (1, s\<lparr>currentActive := (if currentActive s = - 1 then STARTED c else currentActive s),
               mstate := 0\<rparr>)"
  by (simp add: unlock_def stop_def start_def Let_def)

lemma unlock_wake:
  "mstate s = 1 \<Longrightarrow> 0 \<le> waitthread s \<Longrightarrow> waitthread s < MAX_THREADS c \<Longrightarrow>
   unlock c a s =
     Inr (1, yield_and_start c a
       (s\<lparr>currentActive := STOPPED c, mstate := 0,
          thread := (thread s)(waitthread s :=
              (thread s (waitthread s))\<lparr>priority := waitcount s, flags := RUNNING c\<rparr>),
          waitthread := - 1\<rparr>))"
  by (simp add: unlock_def stop_def start_def Let_def setPriority_def restart_def
        thread_upd_def in_bounds_def)

text \<open>
  Claim C3. On a locked mutex (\<open>mstate = 1\<close>) \<^verbatim>\<open>unlock\<close> releases the lock. With a
  waiter parked in a slot of the table, the state handed to \<^verbatim>\<open>yield_and_start\<close> has
  the lock free, the waiter's priority set to the saved tick count, its flags RUNNING
  and \<open>waitthread = -1\<close>; what \<^verbatim>\<open>yield_and_start\<close> returns is what \<^verbatim>\<open>unlock\<close>
  returns. Without a waiter the only change is the released lock: the scheduler state
  is the one before the call (\<open>-1\<close> is not a scheduler state but the marker that
  \<^verbatim>\<open>start\<close> replaces).
\<close>

theorem unlock_wake_path:
  assumes "mstate s = 1"
  shows "(0 \<le> waitthread s \<and> waitthread s < MAX_THREADS c \<longrightarrow>
            unlock c a s =
              Inr (1, yield_and_start c a
                (s\<lparr>currentActive := STOPPED c, mstate := 0,
                   thread := (thread s)(waitthread s :=
                     (thread s (waitthread s))\<lparr>priority := waitcount s, flags := RUNNING c\<rparr>),
                   waitthread := - 1\<rparr>)))
         \<and> (waitthread s < 0 \<and> currentActive s \<noteq> - 1 \<longrightarrow>
              unlock c a s = Inr (1, s\<lparr>mstate := 0\<rparr>))"
  using assms by (simp add: unlock_wake unlock_no_waiter)

theorem unlock_wake_path_witness:
  "mstate held_parked = 1 \<and> 0 \<le> waitthread held_parked
   \<and> waitthread held_parked < MAX_THREADS cfg
   \<and> unlock cfg idle held_parked =
        Inr (1, yield_and_start cfg idle
          (held_parked\<lparr>currentActive := STOPPED cfg, mstate := 0,
             thread := (thread held_parked)(waitthread held_parked :=
               (thread held_parked (waitthread held_parked))
                 \<lparr>priority := waitcount held_parked, flags := RUNNING cfg\<rparr>),
             waitthread := - 1\<rparr>))
   \<and> mstate held_alone = 1 \<and> waitthread held_alone < 0 \<and> currentActive held_alone \<noteq> - 1
   \<and> unlock cfg idle held_alone = Inr (1, held_alone\<lparr>mstate := 0\<rparr>)"
proof -
  have p: "mstate held_parked = 1" and a: "mstate held_alone = 1"
    by (simp_all add: held_parked_def held_alone_def boot_def)
  have w: "0 \<le> waitthread held_parked \<and> waitthread held_parked < MAX_THREADS cfg"
    by (simp add: held_parked_def boot_def cfg_def)
  have n: "waitthread held_alone < 0 \<and> currentActive held_alone \<noteq> - 1"
    by (simp add: held_alone_def boot_def)
  from unlock_wake_path [OF p, of cfg idle] unlock_wake_path [OF a, of cfg idle] p a w n
  show ?thesis by blast
qed

text \<open>
  Claim C10. \<^verbatim>\<open>unlock\<close> never returns anything but 1, and it does return 1 unless
  the wake path indexes the table out of bounds. On an unlocked mutex (\<open>mstate = 0\<close>)
  it leaves the whole state as it was: the lock state, the recorded waiter, the thread
  table and the scheduler state.
\<close>

theorem unlock_returns_one:
  "(unlock c a s = Inr (r, s') \<longrightarrow> r = 1)
   \<and> (\<not> (mstate s = 1 \<and> MAX_THREADS c \<le> waitthread s) \<longrightarrow> (\<exists>s''. unlock c a s = Inr (1, s'')))
   \<and> (mstate s = 0 \<and> currentActive s \<noteq> - 1 \<longrightarrow> unlock c a s = Inr (1, s))"
proof -
  consider (unlocked) "mstate s \<noteq> 1" | (alone) "mstate s = 1" "waitthread s < 0"
    | (wake) "mstate s = 1" "0 \<le> waitthread s" "waitthread s < MAX_THREADS c"
    | (oob) "mstate s = 1" "MAX_THREADS c \<le> waitthread s" "0 \<le> waitthread s"
    by linarith
  then show ?thesis
  proof cases
    case unlocked
    then show ?thesis by (simp add: unlock_not_locked)
  next
    case alone
    then show ?thesis by (simp add: unlock_no_waiter)
  next
    case wake
    then show ?thesis by (simp add: unlock_wake)
  next
    case oob
    then show ?thesis
      by (simp add: unlock_def stop_def start_def Let_def setPriority_def restart_def
            thread_upd_def in_bounds_def)
  qed
qed

theorem unlock_returns_one_witness:
  "unlock cfg idle free_parked = Inr (1, free_parked)
   \<and> mstate free_parked = 0 \<and> waitthread free_parked = 2
   \<and> flags (thread free_parked 2) = SUSPENDED cfg
   \<and> currentActive free_parked \<noteq> - 1
   \<and> \<not> (mstate held_parked = 1 \<and> MAX_THREADS cfg \<le> waitthread held_parked)
   \<and> (\<exists>s''. unlock cfg idle held_parked = Inr (1, s''))"
proof -
  have f: "mstate free_parked = 0 \<and> currentActive free_parked \<noteq> - 1"
    and g: "waitthread free_parked = 2 \<and> flags (thread free_parked 2) = SUSPENDED cfg"
    and h: "\<not> (mstate held_parked = 1 \<and> MAX_THREADS cfg \<le> waitthread held_parked)"
    by (simp_all add: free_parked_def held_parked_def boot_def cfg_def blank_def)
  from unlock_returns_one [of cfg idle free_parked 1 free_parked]
    unlock_returns_one [of cfg idle held_parked 1 held_parked] f g h
  show ?thesis by blast
qed

section \<open>Scheduler selection: round robin and the priority boost\<close>

text \<open>
  Claim C4. When no boost is taken (the executing thread is not RUNNING, or no slot of
  the table has a priority set) and slot 0 is RUNNING, \<^verbatim>\<open>getNextThread\<close> returns,
  having chosen the first RUNNING slot after \<^verbatim>\<open>current_thread\<close>, or slot 0 when
  there is none up to the end of the table; the chosen slot is RUNNING and its ticks are
  the new tick budget. The scan is a total function: its recursion is bounded by
  \<open>MAX_THREADS - current_thread\<close>.
\<close>

theorem round_robin_fallback:
  assumes "in_bounds c (current_thread s)"
    and "flags (thread s (current_thread s)) \<noteq> RUNNING c
         \<or> (\<forall>i. 0 \<le> i \<and> i < MAX_THREADS c \<longrightarrow> priority (thread s i) = 0)"
    and "flags (thread s 0) = RUNNING c"
  shows "\<exists>s' j. getNextThread c s = Inr s' \<and> current_thread s' = j
           \<and> rr_pick c (thread s) (current_thread s) j
           \<and> flags (thread s j) = RUNNING c \<and> flags (thread s' j) = RUNNING c
           \<and> currentCount s' = ticks (thread s j) \<and> currentCount s' = ticks (thread s' j)"
proof -
  from getNextThread_round_robin [OF assms(1,2)]
  obtain j where pk: "rr_pick c (thread s) (current_thread s) j" and jb: "in_bounds c j"
    and g: "getNextThread c s =
             Inr (s\<lparr>thread := (thread s)(current_thread s :=
                      (thread s (current_thread s))\<lparr>sp := currentSP s\<rparr>),
                    current_thread := j,
                    currentCount := ticks (thread s j),
                    currentThread := j, currentSave := j,
                    currentMSP := (if j = 0 then 1 else 0),
                    currentSP := (if j = current_thread s then currentSP s else sp (thread s j))\<rparr>)"
    by blast
  from pk assms(3) have r: "flags (thread s j) = RUNNING c"
    by (auto simp: rr_pick_def)
  show ?thesis
    using pk r by (auto simp: g)
qed

theorem round_robin_fallback_witness:
  "in_bounds cfg (current_thread three_threads)
   \<and> flags (thread three_threads 0) = RUNNING cfg
   \<and> (\<exists>s'. getNextThread cfg three_threads = Inr s' \<and> current_thread s' = 2
         \<and> rr_pick cfg (thread three_threads) (current_thread three_threads) 2
         \<and> flags (thread s' 2) = RUNNING cfg \<and> currentCount s' = 20)"
proof -
  have h1: "in_bounds cfg (current_thread three_threads)"
    and h3: "flags (thread three_threads 0) = RUNNING cfg"
    by (simp_all add: ex_defs in_bounds_def)
  have h2: "flags (thread three_threads (current_thread three_threads)) \<noteq> RUNNING cfg
     \<or> (\<forall>i. 0 \<le> i \<and> i < MAX_THREADS cfg \<longrightarrow> priority (thread three_threads i) = 0)"
    by (simp add: ex_defs)
  have ev: "map_sum id (\<lambda>s. (current_thread s, currentCount s)) (getNextThread cfg three_threads)
              = Inr (2, 20)"
    by (simp add: run_defs ex_defs)
  from round_robin_fallback [OF h1 h2 h3]
  obtain s' j where g: "getNextThread cfg three_threads = Inr s'" "current_thread s' = j"
    "rr_pick cfg (thread three_threads) (current_thread three_threads) j"
    "flags (thread s' j) = RUNNING cfg" "currentCount s' = ticks (thread s' j)"
    by blast
  from ev g(1,2) have "j = 2" "currentCount s' = 20" by simp_all
  with g h1 h3 show ?thesis by simp
qed

text \<open>
  Claim C1, as amended. The code tests the flags of the executing thread where the
  claim tests the candidate's, and it loads the candidate's \<open>ticks\<close>, not the boost
  value. Where both the executing thread and the boosted thread \<open>tid\<close> are RUNNING
  and no lower slot has a priority set: after \<^verbatim>\<open>setPriority(tid, k)\<close> with \<open>k \<noteq> 0\<close>
  the next \<^verbatim>\<open>getNextThread\<close> makes \<open>tid\<close> the current thread, loads
  \<open>thread[tid].ticks\<close> as the tick budget and clears \<open>thread[tid].priority\<close>; when no
  other boost is set, the selection after that is the round-robin one, starting after
  \<open>tid\<close>.
\<close>

theorem priority_boost_one_shot:
  assumes ib: "in_bounds c (current_thread s)"
    and run: "flags (thread s (current_thread s)) = RUNNING c"
    and tb: "in_bounds c tid" and trun: "flags (thread s tid) = RUNNING c"
    and k: "k \<noteq> 0"
    and low: "\<forall>j. 0 \<le> j \<and> j < tid \<longrightarrow> priority (thread s j) = 0"
  shows "\<exists>s1 s2. setPriority c tid k s = Inr s1 \<and> getNextThread c s1 = Inr s2
           \<and> current_thread s2 = tid \<and> currentCount s2 = ticks (thread s tid)
           \<and> priority (thread s2 tid) = 0
           \<and> ((\<forall>j. tid < j \<and> j < MAX_THREADS c \<longrightarrow> priority (thread s j) = 0) \<longrightarrow>
                (\<exists>s3 j. getNextThread c s2 = Inr s3 \<and> current_thread s3 = j
                   \<and> rr_pick c (thread s) tid j \<and> currentCount s3 = ticks (thread s j)))"
proof -
  define s1 where "s1 = s\<lparr>thread := (thread s)(tid := (thread s tid)\<lparr>priority := k\<rparr>)\<rparr>"
  have sp: "setPriority c tid k s = Inr s1"
    unfolding s1_def by (rule setPriority_in_bounds [OF tb])
  have ib1: "in_bounds c (current_thread s1)" and run1: "flags (thread s1 (current_thread s1)) = RUNNING c"
    and pr1: "priority (thread s1 tid) \<noteq> 0"
    and low1: "\<forall>j. 0 \<le> j \<and> j < tid \<longrightarrow> priority (thread s1 j) = 0"
    using ib run k low by (auto simp: s1_def)
  note g1 = getNextThread_priority [OF ib1 run1 tb pr1 low1]
  then obtain s2 where g2: "getNextThread c s1 = Inr s2"
    and c2: "current_thread s2 = tid" and n2: "currentCount s2 = ticks (thread s tid)"
    and p2: "priority (thread s2 tid) = 0"
    and fl2: "\<forall>i. flags (thread s2 i) = flags (thread s i)"
    and tk2: "\<forall>i. ticks (thread s2 i) = ticks (thread s i)"
    and pz2: "\<forall>i. i \<noteq> tid \<longrightarrow> priority (thread s2 i) = priority (thread s i)"
    by (auto simp: s1_def)
  have one_shot: "\<exists>s3 j. getNextThread c s2 = Inr s3 \<and> current_thread s3 = j
                   \<and> rr_pick c (thread s) tid j \<and> currentCount s3 = ticks (thread s j)"
    if high: "\<forall>j. tid < j \<and> j < MAX_THREADS c \<longrightarrow> priority (thread s j) = 0"
  proof -
    have ib2: "in_bounds c (current_thread s2)" using tb c2 by simp
    have "priority (thread s2 i) = 0" if "0 \<le> i" "i < MAX_THREADS c" for i
    proof (cases "i = tid")
      case True
      with p2 show ?thesis by simp
    next
      case False
      with that low high have "priority (thread s i) = 0"
        by (cases "i < tid") auto
      with False pz2 show ?thesis by simp
    qed
    then have np: "flags (thread s2 (current_thread s2)) \<noteq> RUNNING c
         \<or> (\<forall>i. 0 \<le> i \<and> i < MAX_THREADS c \<longrightarrow> priority (thread s2 i) = 0)"
      by blast
    from getNextThread_round_robin [OF ib2 np]
    obtain j s3 where pk: "rr_pick c (thread s2) (current_thread s2) j"
      and g3: "getNextThread c s2 = Inr s3" and c3: "current_thread s3 = j"
      and n3: "currentCount s3 = ticks (thread s2 j)"
      by auto
    have "rr_pick c (thread s2) tid j = rr_pick c (thread s) tid j"
      by (rule rr_pick_cong) (simp add: fl2)
    with pk c2 have "rr_pick c (thread s) tid j" by simp
    with g3 c3 n3 tk2 show ?thesis by auto
  qed
  from sp g2 c2 n2 p2 one_shot show ?thesis by blast
qed

theorem priority_boost_one_shot_witness:
  "in_bounds cfg (current_thread three_threads)
   \<and> flags (thread three_threads (current_thread three_threads)) = RUNNING cfg
   \<and> in_bounds cfg 2 \<and> flags (thread three_threads 2) = RUNNING cfg \<and> (5 :: u32) \<noteq> 0
   \<and> (\<exists>s1 s2 s3. setPriority cfg 2 5 three_threads = Inr s1 \<and> getNextThread cfg s1 = Inr s2
         \<and> current_thread s2 = 2 \<and> currentCount s2 = ticks (thread three_threads 2)
         \<and> priority (thread s2 2) = 0
         \<and> getNextThread cfg s2 = Inr s3 \<and> current_thread s3 = 0)"
proof -
  have h: "in_bounds cfg (current_thread three_threads)"
      "flags (thread three_threads (current_thread three_threads)) = RUNNING cfg"
      "in_bounds cfg 2" "flags (thread three_threads 2) = RUNNING cfg" "(5 :: u32) \<noteq> 0"
    by (simp_all add: ex_defs in_bounds_def)
  have low: "\<forall>j. 0 \<le> j \<and> j < 2 \<longrightarrow> priority (thread three_threads j) = 0"
    and high: "\<forall>j. 2 < j \<and> j < MAX_THREADS cfg \<longrightarrow> priority (thread three_threads j) = 0"
    by (simp_all add: ex_defs)
  from priority_boost_one_shot [OF h low] high
  obtain s1 s2 s3 j where r: "setPriority cfg 2 5 three_threads = Inr s1" "getNextThread cfg s1 = Inr s2"
      "current_thread s2 = 2" "currentCount s2 = ticks (thread three_threads 2)"
      "priority (thread s2 2) = 0" "getNextThread cfg s2 = Inr s3" "current_thread s3 = j"
    and pk: "rr_pick cfg (thread three_threads) 2 j"
    by blast
  have "j = 0"
  proof (rule ccontr)
    assume "j \<noteq> 0"
    with pk have "2 < j" "j < 4" "flags (thread three_threads j) = 1"
      by (simp_all add: rr_pick_def cfg_def)
    moreover from this have "j = 3" by linarith
    ultimately show False by (simp add: ex_defs)
  qed
  with r h show ?thesis by blast
qed

text \<open>
  The claim as stated fails: slot 2 is RUNNING and is boosted with \<open>k = 5\<close>, it is
  chosen, and the tick budget is its slice of 20. The second half shows the test on the
  executing thread: slot 1 is executing and SUSPENDED, the RUNNING slot 3 is boosted,
  and the selection is slot 2 with the boost of slot 3 left in place.
\<close>

theorem priority_boost_counterexample:
  "flags (thread three_threads 2) = RUNNING cfg
   \<and> map_sum id (\<lambda>s. (current_thread s, currentCount s))
       (case setPriority cfg 2 5 three_threads of
          Inl e \<Rightarrow> Inl e | Inr s1 \<Rightarrow> getNextThread cfg s1) = Inr (2, 20)
   \<and> (20 :: u32) \<noteq> 5
   \<and> flags (thread suspended_current 3) = RUNNING cfg
   \<and> map_sum id (\<lambda>s. (current_thread s, priority (thread s 3)))
       (case setPriority cfg 3 5 suspended_current of
          Inl e \<Rightarrow> Inl e | Inr s1 \<Rightarrow> getNextThread cfg s1) = Inr (2, 5)"
  by (simp add: run_defs ex_defs suspended_current_def)

section \<open>Creating threads: free slots and the scheduler state\<close>

lemmas add_defs = addThread_def addThread_loop.simps addThread_slot_def loadstack_def
  frame_upd_def Let_def stop_def start_def start_default_def thread_at_def in_bounds_def

lemma addThread_loop_none:
  assumes "0 \<le> i"
    and "\<forall>k. i \<le> k \<and> k < MAX_THREADS c \<longrightarrow>
           flags (thread s k) \<noteq> ENDED c \<and> flags (thread s k) \<noteq> EMPTY c"
  shows "addThread_loop c newp p arg sz stk old i s =
           Inr (- 1, if old = STARTED c then snd (start c start_default s) else s)"
  using assms
proof (induction c newp p arg sz stk old i s rule: addThread_loop.induct)
  case (1 c newp p arg sz stk old i s)
  show ?case
  proof (cases "i < MAX_THREADS c")
    case False
    then show ?thesis by (subst addThread_loop.simps) simp
  next
    case True
    with "1.prems" have ta: "thread_at c s i = Inr (thread s i)"
      and nf: "\<not> (flags (thread s i) = ENDED c \<or> flags (thread s i) = EMPTY c)"
      by (simp_all add: thread_at_def in_bounds_def)
    from True ta nf have "addThread_loop c newp p arg sz stk old i s =
        addThread_loop c newp p arg sz stk old (i + 1) s"
      by (subst addThread_loop.simps) simp
    also have "\<dots> = Inr (- 1, if old = STARTED c then snd (start c start_default s) else s)"
    proof (rule "1.IH" [OF True ta nf])
      show "0 \<le> i + 1" using "1.prems" by simp
      show "\<forall>k. i + 1 \<le> k \<and> k < MAX_THREADS c \<longrightarrow>
           flags (thread s k) \<noteq> ENDED c \<and> flags (thread s k) \<noteq> EMPTY c"
        using "1.prems" by auto
    qed
    finally show ?thesis .
  qed
qed

lemma addThread_loop_first:
  assumes "0 \<le> i" and "i \<le> j" and "j < MAX_THREADS c"
    and "flags (thread s j) = ENDED c \<or> flags (thread s j) = EMPTY c"
    and "\<forall>k. i \<le> k \<and> k < j \<longrightarrow>
           flags (thread s k) \<noteq> ENDED c \<and> flags (thread s k) \<noteq> EMPTY c"
  shows "addThread_loop c newp p arg sz stk old i s =
           Inr (addThread_slot c newp p arg sz stk old j s)"
  using assms
proof (induction c newp p arg sz stk old i s rule: addThread_loop.induct)
  case (1 c newp p arg sz stk old i s)
  from "1.prems" have lt: "i < MAX_THREADS c" and ta: "thread_at c s i = Inr (thread s i)"
    by (simp_all add: thread_at_def in_bounds_def)
  show ?case
  proof (cases "i = j")
    case True
    with "1.prems" lt ta show ?thesis
      by (subst addThread_loop.simps) simp
  next
    case False
    with "1.prems" have nf: "\<not> (flags (thread s i) = ENDED c \<or> flags (thread s i) = EMPTY c)"
      and le: "i + 1 \<le> j" by auto
    from lt ta nf have "addThread_loop c newp p arg sz stk old i s =
        addThread_loop c newp p arg sz stk old (i + 1) s"
      by (subst addThread_loop.simps) simp
    also have "\<dots> = Inr (addThread_slot c newp p arg sz stk old j s)"
    proof (rule "1.IH" [OF lt ta nf _ le "1.prems"(3,4)])
      show "0 \<le> i + 1" using "1.prems" by simp
      show "\<forall>k. i + 1 \<le> k \<and> k < j \<longrightarrow>
           flags (thread s k) \<noteq> ENDED c \<and> flags (thread s k) \<noteq> EMPTY c"
        using "1.prems"(5) by auto
    qed
    finally show ?thesis .
  qed
qed

lemma addThread_slot_effect:
  "fst (addThread_slot c newp p arg sz stk old i s) = i"
  "flags (thread (snd (addThread_slot c newp p arg sz stk old i s)) i) = RUNNING c"
  "ticks (thread (snd (addThread_slot c newp p arg sz stk old i s)) i) = DEFAULT_TICKS s"
  "priority (thread (snd (addThread_slot c newp p arg sz stk old i s)) i) = 0"
  "k \<noteq> i \<Longrightarrow> thread (snd (addThread_slot c newp p arg sz stk old i s)) k = thread s k"
  "thread_count (snd (addThread_slot c newp p arg sz stk old i s)) = thread_count s + 1"
  "currentActive (snd (addThread_slot c newp p arg sz stk old i s)) =
     (if old = STARTED c \<or> old = FIRST_RUN c then STARTED c else old)"
  by (simp_all add: addThread_slot_def loadstack_def frame_upd_def Let_def start_def
        start_default_def split_def)

lemma addThread_loop_ticks:
  "addThread_loop c newp p arg sz stk old i0 s = Inr (i, s') \<Longrightarrow> i \<noteq> - 1 \<Longrightarrow>
   ticks (thread s' i) = DEFAULT_TICKS s"
proof (induction c newp p arg sz stk old i0 s rule: addThread_loop.induct)
  case (1 c newp p arg sz stk old i0 s)
  show ?case
  proof (cases "i0 < MAX_THREADS c")
    case False
    with "1.prems" show ?thesis by (subst (asm) addThread_loop.simps) simp
  next
    case True
    show ?thesis
    proof (cases "thread_at c s i0")
      case (Inl e)
      with True "1.prems" show ?thesis by (subst (asm) addThread_loop.simps) simp
    next
      case (Inr ti)
      show ?thesis
      proof (cases "flags ti = ENDED c \<or> flags ti = EMPTY c")
        case free: True
        with True Inr "1.prems"(1)
        have "addThread_slot c newp p arg sz stk old i0 s = (i, s')"
          by (subst (asm) addThread_loop.simps) simp
        with addThread_slot_effect(1,3) [of c newp p arg sz stk old i0 s]
        show ?thesis by simp
      next
        case False
        with True Inr "1.prems"(1)
        have "addThread_loop c newp p arg sz stk old (i0 + 1) s = Inr (i, s')"
          by (subst (asm) addThread_loop.simps) simp
        from "1.IH" [OF True Inr False this "1.prems"(2)] show ?thesis .
      qed
    qed
  qed
qed

text \<open>
  Claim C5, as amended. When no slot in \<open>1 .. MAX_THREADS - 1\<close> is EMPTY or ENDED,
  \<^verbatim>\<open>addThread\<close> returns \<open>-1\<close> and leaves the thread table and \<open>thread_count\<close> as
  they were; when the scheduler was STARTED or STOPPED before the call the whole state is
  as before. When a free slot exists it returns the lowest free slot, which is now
  RUNNING, touches no other slot, counts the thread, and leaves the scheduler STARTED
  when it was STARTED or FIRST_RUN and in its prior state otherwise.
\<close>

theorem addThread_slots:
  "((\<forall>k. 1 \<le> k \<and> k < MAX_THREADS c \<longrightarrow>
        flags (thread s k) \<noteq> ENDED c \<and> flags (thread s k) \<noteq> EMPTY c) \<longrightarrow>
      (\<exists>s'. addThread c newp p arg sz stk s = Inr (- 1, s')
         \<and> thread s' = thread s \<and> thread_count s' = thread_count s
         \<and> (currentActive s = STARTED c \<or> currentActive s = STOPPED c \<longrightarrow> s' = s)))
   \<and> (1 \<le> i \<and> i < MAX_THREADS c
       \<and> (flags (thread s i) = ENDED c \<or> flags (thread s i) = EMPTY c)
       \<and> (\<forall>k. 1 \<le> k \<and> k < i \<longrightarrow>
             flags (thread s k) \<noteq> ENDED c \<and> flags (thread s k) \<noteq> EMPTY c) \<longrightarrow>
      (\<exists>s'. addThread c newp p arg sz stk s = Inr (i, s')
         \<and> flags (thread s' i) = RUNNING c
         \<and> (\<forall>k. k \<noteq> i \<longrightarrow> thread s' k = thread s k)
         \<and> thread_count s' = thread_count s + 1
         \<and> currentActive s' =
             (if currentActive s = STARTED c \<or> currentActive s = FIRST_RUN c
              then STARTED c else currentActive s)))"
proof (intro conjI impI)
  let ?s1 = "s\<lparr>currentActive := STOPPED c\<rparr>"
  let ?sz = "if sz = - 1 then DEFAULT_STACK_SIZE ?s1 else sz"
  assume full: "\<forall>k. 1 \<le> k \<and> k < MAX_THREADS c \<longrightarrow>
        flags (thread s k) \<noteq> ENDED c \<and> flags (thread s k) \<noteq> EMPTY c"
  then have full1: "\<forall>k. 1 \<le> k \<and> k < MAX_THREADS c \<longrightarrow>
        flags (thread ?s1 k) \<noteq> ENDED c \<and> flags (thread ?s1 k) \<noteq> EMPTY c"
    by simp
  have "addThread c newp p arg sz stk s =
          addThread_loop c newp p arg ?sz stk (currentActive s) 1 ?s1"
    by (simp add: addThread_def stop_def)
  also have "\<dots> = Inr (- 1, if currentActive s = STARTED c
                          then snd (start c start_default ?s1) else ?s1)"
    by (rule addThread_loop_none [OF _ full1]) simp
  finally have r: "addThread c newp p arg sz stk s =
      Inr (- 1, if currentActive s = STARTED c then snd (start c start_default ?s1) else ?s1)" .
  have "s\<lparr>currentActive := currentActive s\<rparr> = s" by simp
  then have same: "currentActive s = v \<Longrightarrow> s\<lparr>currentActive := v\<rparr> = s" for v by auto
  show "\<exists>s'. addThread c newp p arg sz stk s = Inr (- 1, s')
         \<and> thread s' = thread s \<and> thread_count s' = thread_count s
         \<and> (currentActive s = STARTED c \<or> currentActive s = STOPPED c \<longrightarrow> s' = s)"
    unfolding r by (auto simp: start_def start_default_def same)
next
  let ?s1 = "s\<lparr>currentActive := STOPPED c\<rparr>"
  let ?sz = "if sz = - 1 then DEFAULT_STACK_SIZE ?s1 else sz"
  assume a: "1 \<le> i \<and> i < MAX_THREADS c
       \<and> (flags (thread s i) = ENDED c \<or> flags (thread s i) = EMPTY c)
       \<and> (\<forall>k. 1 \<le> k \<and> k < i \<longrightarrow>
             flags (thread s k) \<noteq> ENDED c \<and> flags (thread s k) \<noteq> EMPTY c)"
  have "addThread c newp p arg sz stk s =
          addThread_loop c newp p arg ?sz stk (currentActive s) 1 ?s1"
    by (simp add: addThread_def stop_def)
  also have "\<dots> = Inr (addThread_slot c newp p arg ?sz stk (currentActive s) i ?s1)"
    using a by (intro addThread_loop_first) simp_all
  finally have r: "addThread c newp p arg sz stk s =
      Inr (addThread_slot c newp p arg ?sz stk (currentActive s) i ?s1)" .
  let ?res = "addThread_slot c newp p arg ?sz stk (currentActive s) i ?s1"
  have "addThread c newp p arg sz stk s = Inr (i, snd ?res)"
    using addThread_slot_effect(1) [of c newp p arg ?sz stk "currentActive s" i ?s1]
    by (simp add: r prod_eq_iff)
  moreover have "flags (thread (snd ?res) i) = RUNNING c"
    by (rule addThread_slot_effect(2))
  moreover have "\<forall>k. k \<noteq> i \<longrightarrow> thread (snd ?res) k = thread s k"
    by (simp add: addThread_slot_effect(5))
  moreover have "thread_count (snd ?res) = thread_count s + 1"
    by (simp add: addThread_slot_effect(6))
  moreover have "currentActive (snd ?res) =
             (if currentActive s = STARTED c \<or> currentActive s = FIRST_RUN c
              then STARTED c else currentActive s)"
    by (rule addThread_slot_effect(7))
  ultimately show "\<exists>s'. addThread c newp p arg sz stk s = Inr (i, s')
         \<and> flags (thread s' i) = RUNNING c
         \<and> (\<forall>k. k \<noteq> i \<longrightarrow> thread s' k = thread s k)
         \<and> thread_count s' = thread_count s + 1
         \<and> currentActive s' =
             (if currentActive s = STARTED c \<or> currentActive s = FIRST_RUN c
              then STARTED c else currentActive s)"
    by blast
qed

theorem addThread_slots_witness:
  "addThread cfg 0x20001000 0x101 7 64 0 full_table = Inr (- 1, full_table)
   \<and> currentActive full_table = STARTED cfg
   \<and> 1 \<le> (1 :: int) \<and> 1 < MAX_THREADS cfg \<and> flags (thread boot 1) = EMPTY cfg
   \<and> (\<exists>s'. addThread cfg 0x20001000 0x101 7 64 0 boot = Inr (1, s')
         \<and> flags (thread s' 1) = RUNNING cfg \<and> thread_count s' = 1
         \<and> currentActive s' = STARTED cfg)"
proof -
  have full: "\<forall>k. 1 \<le> k \<and> k < MAX_THREADS cfg \<longrightarrow>
        flags (thread full_table k) \<noteq> ENDED cfg \<and> flags (thread full_table k) \<noteq> EMPTY cfg"
    and st: "currentActive full_table = STARTED cfg"
    by (simp_all add: full_table_def ex_defs)
  have free: "1 \<le> (1 :: int) \<and> 1 < MAX_THREADS cfg
       \<and> (flags (thread boot 1) = ENDED cfg \<or> flags (thread boot 1) = EMPTY cfg)
       \<and> (\<forall>k. 1 \<le> k \<and> k < 1 \<longrightarrow>
             flags (thread boot k) \<noteq> ENDED cfg \<and> flags (thread boot k) \<noteq> EMPTY cfg)"
    and b: "flags (thread boot 1) = EMPTY cfg" "currentActive boot = FIRST_RUN cfg"
      "thread_count boot = 0" "STARTED cfg = 1"
    by (simp_all add: full_table_def ex_defs)
  from addThread_slots [where c = cfg and s = full_table and newp = "0x20001000" and p = "0x101"
      and arg = 7 and sz = 64 and stk = 0 and i = 1] full st
  have 1: "addThread cfg 0x20001000 0x101 7 64 0 full_table = Inr (- 1, full_table)"
    by auto
  from addThread_slots [where c = cfg and s = boot and newp = "0x20001000" and p = "0x101"
      and arg = 7 and sz = 64 and stk = 0 and i = 1] free b
  have 2: "\<exists>s'. addThread cfg 0x20001000 0x101 7 64 0 boot = Inr (1, s')
         \<and> flags (thread s' 1) = RUNNING cfg \<and> thread_count s' = 1
         \<and> currentActive s' = STARTED cfg"
    by auto
  from 1 2 st free b show ?thesis by simp
qed

text \<open>
  The claim as stated fails for the prior state FIRST_RUN. With a full table the call
  returns \<open>-1\<close> and leaves the scheduler STOPPED; with a free slot it returns the slot
  and leaves the scheduler STARTED.
\<close>

theorem addThread_restore_counterexample:
  "currentActive full_first_run = FIRST_RUN cfg
   \<and> map_sum id (\<lambda>r. (fst r, currentActive (snd r)))
       (addThread cfg 0x20001000 0x101 7 64 0 full_first_run) = Inr (- 1, STOPPED cfg)
   \<and> currentActive boot = FIRST_RUN cfg
   \<and> map_sum id (\<lambda>r. (fst r, currentActive (snd r)))
       (addThread cfg 0x20001000 0x101 7 64 0 boot) = Inr (1, STARTED cfg)
   \<and> STOPPED cfg \<noteq> FIRST_RUN cfg \<and> STARTED cfg \<noteq> FIRST_RUN cfg"
  by (simp add: add_defs full_first_run_def full_table_def ex_defs)

section \<open>Time slices\<close>

text \<open>
  Claim C8. For every requested count \<open>t\<close>, \<^verbatim>\<open>setTimeSlice(id, t)\<close> stores \<open>t - 1\<close>
  in \<open>thread[id].ticks\<close> (for an id inside the table), and
  \<^verbatim>\<open>setDefaultTimeSlice(t)\<close> stores \<open>t - 1\<close> in the default tick count, which is what
  a thread created afterwards gets as its \<open>ticks\<close>. The subtraction is the unsigned
  32-bit one: for \<open>t = 0\<close> the stored word is all ones.
\<close>

theorem tick_count_minus_one:
  "(0 \<le> tid \<and> tid < MAX_THREADS c \<longrightarrow>
      (\<exists>s'. setTimeSlice c tid t s = Inr s' \<and> ticks (thread s' tid) = t - 1))
   \<and> DEFAULT_TICKS (setDefaultTimeSlice t s) = t - 1
   \<and> (addThread c newp p arg sz stk (setDefaultTimeSlice t s) = Inr (i, s') \<and> i \<noteq> - 1 \<longrightarrow>
        ticks (thread s' i) = t - 1)"
proof (intro conjI impI)
  assume "0 \<le> tid \<and> tid < MAX_THREADS c"
  then show "\<exists>s'. setTimeSlice c tid t s = Inr s' \<and> ticks (thread s' tid) = t - 1"
    by (simp add: setTimeSlice_def thread_upd_def in_bounds_def)
next
  show "DEFAULT_TICKS (setDefaultTimeSlice t s) = t - 1"
    by (simp add: setDefaultTimeSlice_def)
next
  assume a: "addThread c newp p arg sz stk (setDefaultTimeSlice t s) = Inr (i, s') \<and> i \<noteq> - 1"
  let ?s0 = "setDefaultTimeSlice t s"
  let ?s1 = "?s0\<lparr>currentActive := STOPPED c\<rparr>"
  from a have "addThread_loop c newp p arg
      (if sz = - 1 then DEFAULT_STACK_SIZE ?s1 else sz) stk (currentActive ?s0) 1 ?s1 = Inr (i, s')"
    by (simp add: addThread_def stop_def)
  from addThread_loop_ticks [OF this] a have "ticks (thread s' i) = DEFAULT_TICKS ?s1"
    by simp
  then show "ticks (thread s' i) = t - 1"
    by (simp add: setDefaultTimeSlice_def)
qed

theorem tick_count_minus_one_witness:
  "0 \<le> (1 :: int) \<and> 1 < MAX_THREADS cfg
   \<and> (\<exists>s'. setTimeSlice cfg 1 20 boot = Inr s' \<and> ticks (thread s' 1) = 19)
   \<and> DEFAULT_TICKS (setDefaultTimeSlice 20 boot) = 19
   \<and> (\<exists>s'. addThread cfg 0x20001000 0x101 7 64 0 (setDefaultTimeSlice 20 boot) = Inr (1, s')
         \<and> ticks (thread s' 1) = 19)
   \<and> (\<exists>s'. setTimeSlice cfg 1 0 boot = Inr s' \<and> ticks (thread s' 1) = - 1)"
proof -
  have h: "0 \<le> (1 :: int) \<and> 1 < MAX_THREADS cfg" by (simp add: cfg_def)
  have "\<exists>s'. addThread cfg 0x20001000 0x101 7 64 0 (setDefaultTimeSlice 20 boot) = Inr (1, s')"
    by (simp add: add_defs ex_defs setDefaultTimeSlice_def)
  then obtain s' where
    g: "addThread cfg 0x20001000 0x101 7 64 0 (setDefaultTimeSlice 20 boot) = Inr (1, s')"
    by blast
  from tick_count_minus_one [where tid = 1 and c = cfg and t = 20 and s = boot
      and newp = "0x20001000" and p = "0x101" and arg = 7 and sz = 64 and stk = 0 and i = 1
      and s' = s'] h g
  have "(\<exists>s'. setTimeSlice cfg 1 20 boot = Inr s' \<and> ticks (thread s' 1) = 19)
     \<and> DEFAULT_TICKS (setDefaultTimeSlice 20 boot) = 19 \<and> ticks (thread s' 1) = 19"
    by simp
  moreover from tick_count_minus_one [where tid = 1 and c = cfg and t = 0 and s = boot
      and newp = "0x20001000" and p = "0x101" and arg = 7 and sz = 64 and stk = 0 and i = 1
      and s' = s'] h
  have "\<exists>s'. setTimeSlice cfg 1 0 boot = Inr s' \<and> ticks (thread s' 1) = - 1"
    by simp
  ultimately show ?thesis using h g by blast
qed

section \<open>Waiting with a deadline\<close>

lemmas wait_defs = wait_def millis_def yield_def svcall_isr_def thread_at_def in_bounds_def
  kill_def thread_upd_def

lemma wait_loop_continue:
  "wait_goes_on c tid t strt s \<Longrightarrow>
   wait_loop c a (Suc fuel) k tid t strt s = wait_loop c a fuel (Suc k) tid t strt (yield c (a k) s)"
  by (auto simp: wait_goes_on_def wait_expired_def thread_at_def)

lemma wait_loop_stop:
  "\<not> wait_goes_on c tid t strt s \<Longrightarrow>
   (wait_loop c a (Suc fuel) k tid t strt s = Some (Inr (r, s'))) = (s' = s \<and> wait_exit c tid t strt r s)"
  by (auto simp: wait_goes_on_def wait_exit_def wait_expired_def thread_at_def)

lemma wait_exit_not_goes_on:
  "wait_exit c tid t strt r s \<Longrightarrow> \<not> wait_goes_on c tid t strt s"
  by (auto simp: wait_goes_on_def wait_exit_def split: if_splits)

lemma wait_loop_run:
  "(wait_loop c a fuel k tid t strt s = Some (Inr (r, s'))) =
   (\<exists>n<fuel. (\<forall>m<n. wait_goes_on c tid t strt (yields c a k m s))
        \<and> s' = yields c a k n s \<and> wait_exit c tid t strt r s')"
proof (induction fuel arbitrary: k s)
  case 0
  show ?case by simp
next
  case (Suc fuel)
  show ?case
  proof (cases "wait_goes_on c tid t strt s")
    case True
    have "(wait_loop c a (Suc fuel) k tid t strt s = Some (Inr (r, s'))) =
          (wait_loop c a fuel (Suc k) tid t strt (yield c (a k) s) = Some (Inr (r, s')))"
      by (simp only: wait_loop_continue [OF True])
    also have "\<dots> = (\<exists>n<fuel. (\<forall>m<n. wait_goes_on c tid t strt (yields c a k (Suc m) s))
        \<and> s' = yields c a k (Suc n) s \<and> wait_exit c tid t strt r s')"
      by (simp add: Suc.IH)
    also have "\<dots> = (\<exists>n<Suc fuel. (\<forall>m<n. wait_goes_on c tid t strt (yields c a k m s))
        \<and> s' = yields c a k n s \<and> wait_exit c tid t strt r s')"
      using True wait_exit_not_goes_on [of c tid t strt r s]
      by (subst Ex_less_Suc2) (auto simp: All_less_Suc2)
    finally show ?thesis .
  next
    case False
    have "(wait_loop c a (Suc fuel) k tid t strt s = Some (Inr (r, s'))) =
          (s' = s \<and> wait_exit c tid t strt r s)"
      by (rule wait_loop_stop [OF False])
    also have "\<dots> = (\<exists>n<Suc fuel. (\<forall>m<n. wait_goes_on c tid t strt (yields c a k m s))
        \<and> s' = yields c a k n s \<and> wait_exit c tid t strt r s')"
      using False by (subst Ex_less_Suc2) (auto simp: All_less_Suc2)
    finally show ?thesis .
  qed
qed

text \<open>
  Claim C7, as amended. Every check of \<^verbatim>\<open>wait\<close> tests the deadline first: the call
  returns \<open>-1\<close> at the first check at which \<open>timeout_ms \<noteq> 0\<close> and more than
  \<open>timeout_ms\<close> milliseconds have elapsed, whether or not the target is still RUNNING;
  it returns \<open>id\<close> at the first check at which the deadline has not expired and the
  target's flags differ from RUNNING; at every earlier check the deadline had not
  expired and the target was RUNNING, and the call yielded. With \<open>timeout_ms = 0\<close> it
  never returns \<open>-1\<close>.
\<close>

theorem wait_deadline_first:
  "((wait c a fuel tid t s = Some (Inr (r, s'))) =
      (\<exists>n<fuel. (\<forall>m<n. wait_goes_on c tid t (millis s) (yields c a 0 m s))
          \<and> s' = yields c a 0 n s \<and> wait_exit c tid t (millis s) r s'))
   \<and> (t = 0 \<longrightarrow> wait c a fuel tid t s \<noteq> Some (Inr (- 1, s')))"
proof -
  have run: "(wait c a fuel tid t s = Some (Inr (r, s'))) =
      (\<exists>n<fuel. (\<forall>m<n. wait_goes_on c tid t (millis s) (yields c a 0 m s))
          \<and> s' = yields c a 0 n s \<and> wait_exit c tid t (millis s) r s')" for r
    unfolding wait_def by (rule wait_loop_run)
  have "\<not> wait_exit c tid 0 (millis s) (- 1) s'"
    by (auto simp: wait_exit_def wait_expired_def in_bounds_def)
  with run [of "- 1"] have "t = 0 \<longrightarrow> wait c a fuel tid t s \<noteq> Some (Inr (- 1, s'))"
    by auto
  with run [of r] show ?thesis by blast
qed

theorem wait_deadline_first_witness:
  "(\<exists>s'. wait cfg ticking (Suc (Suc (Suc (Suc 0)))) 2 10 three_threads = Some (Inr (- 1, s'))
       \<and> (\<exists>n<Suc (Suc (Suc (Suc 0))).
             (\<forall>m<n. wait_goes_on cfg 2 10 (millis three_threads) (yields cfg ticking 0 m three_threads))
             \<and> s' = yields cfg ticking 0 n three_threads
             \<and> wait_exit cfg 2 10 (millis three_threads) (- 1) s'))
   \<and> wait cfg ticking (Suc 0) 1 10 three_threads = Some (Inr (1, three_threads))
   \<and> (0 :: u32) = 0
   \<and> wait cfg ticking (Suc (Suc (Suc (Suc 0)))) 2 0 three_threads \<noteq> Some (Inr (- 1, three_threads))"
proof -
  have "\<exists>s'. wait cfg ticking (Suc (Suc (Suc (Suc 0)))) 2 10 three_threads = Some (Inr (- 1, s'))"
    by (simp add: wait_defs ticking_def ex_defs)
  then obtain s' where
    ev: "wait cfg ticking (Suc (Suc (Suc (Suc 0)))) 2 10 three_threads = Some (Inr (- 1, s'))"
    by blast
  note run = wait_deadline_first [THEN conjunct1, THEN iffD1, OF ev]
  have imm: "wait cfg ticking (Suc 0) 1 10 three_threads = Some (Inr (1, three_threads))"
    by (simp add: wait_defs ticking_def ex_defs)
  have z: "(0 :: u32) = 0" by simp
  note never = wait_deadline_first [THEN conjunct2, rule_format, OF z,
      of cfg ticking "Suc (Suc (Suc (Suc 0)))" 2 three_threads three_threads]
  from ev run imm z never show ?thesis by blast
qed

text \<open>
  The claim as stated fails where the target ends while the caller is switched out
  across the deadline: thread 2 is ENDED 2 ms after the call began, the caller runs
  again after 11 ms with a timeout of 10 ms, and \<^verbatim>\<open>wait\<close> returns \<open>-1\<close>, not the id.
\<close>

theorem wait_returns_id_counterexample:
  "map_option (map_sum id (\<lambda>r. (fst r, flags (thread (snd r) 2), systick_millis_count (snd r))))
     (wait cfg late (Suc (Suc 0)) 2 10 three_threads) = Some (Inr (- 1, ENDED cfg, 11))
   \<and> ENDED cfg \<noteq> RUNNING cfg
   \<and> map_sum id (\<lambda>r. (flags (thread (snd r) 2), systick_millis_count (snd r)))
       (kill cfg 2 (three_threads\<lparr>systick_millis_count := systick_millis_count three_threads + 2\<rparr>))
       = Inr (ENDED cfg, 2)"
  by (simp add: wait_defs late_def ex_defs)

section \<open>Locking with a deadline\<close>














end
